theory Spec2Isabelle
  imports Main "HOL-Library.Word"
begin

unbundle bit_operations_syntax

section \<open>Data model of fsop\_tool.py\<close>

text \<open>
  A Python \<open>bytes\<close> object is a list of 8-bit words. A Python \<open>str\<close> is a list of Unicode
  code points (natural numbers), since names may hold any character, not only Latin-1.
  Codec names (\<open>'shift-jis'\<close>, \<open>'utf-8'\<close>, ...) are ASCII literals and stay \<open>string\<close>.
\<close>

type_synonym byte = "8 word"
type_synonym bytes = "byte list"
type_synonym pystr = "nat list"

definition lit :: "string \<Rightarrow> pystr" where
  "lit s = map of_char s"

text \<open>The exceptions the two classes can raise, as values.\<close>

datatype error =
    UnicodeEncodeError
  | UnicodeDecodeError
  | LookupError
  | ValueError
  | StructError
  | OSError

section \<open>XOR transform\<close>

text \<open>\<open>bytes(b ^ 0x9C for b in data)\<close>, once in each class.\<close>

definition xor_decrypt :: "bytes \<Rightarrow> bytes" where
  "xor_decrypt data = map (\<lambda>b. b XOR 0x9C) data"

definition xor_encrypt :: "bytes \<Rightarrow> bytes" where
  "xor_encrypt data = map (\<lambda>b. b XOR 0x9C) data"

section \<open>String helpers of the Python runtime\<close>

text \<open>
  \<open>str.strip()\<close> without argument removes the characters for which \<open>str.isspace\<close> holds:
  the ASCII controls TAB..CR and FS..US, the space, NEL, NBSP and the Unicode spaces.
\<close>

definition isspace :: "nat \<Rightarrow> bool" where
  "isspace c \<longleftrightarrow>
     (0x09 \<le> c \<and> c \<le> 0x0D) \<or> (0x1C \<le> c \<and> c \<le> 0x20) \<or> c = 0x85 \<or> c = 0xA0 \<or>
     c = 0x1680 \<or> (0x2000 \<le> c \<and> c \<le> 0x200A) \<or> c = 0x2028 \<or> c = 0x2029 \<or>
     c = 0x202F \<or> c = 0x205F \<or> c = 0x3000"

definition strip :: "pystr \<Rightarrow> pystr" where
  "strip s = rev (dropWhile isspace (rev (dropWhile isspace s)))"

text \<open>\<open>s.replace(old, '')\<close> and \<open>s.replace(old, new)\<close> for one-character \<open>old\<close> and \<open>new\<close>.\<close>

definition remove_char :: "nat \<Rightarrow> pystr \<Rightarrow> pystr" where
  "remove_char old s = filter (\<lambda>c. c \<noteq> old) s"

definition replace_char :: "nat \<Rightarrow> nat \<Rightarrow> pystr \<Rightarrow> pystr" where
  "replace_char old new s = map (\<lambda>c. if c = old then new else c) s"

definition endswith :: "'a list \<Rightarrow> 'a list \<Rightarrow> bool" where
  "endswith s suffix \<longleftrightarrow>
     length suffix \<le> length s \<and> drop (length s - length suffix) s = suffix"

section \<open>Sanitization\<close>

text \<open>The literal \<open>'<>:"/\\|?*'\<close>, character by character.\<close>

definition invalid_chars :: pystr where
  "invalid_chars = [0x3C, 0x3E, 0x3A, 0x22, 0x2F, 0x5C, 0x7C, 0x3F, 0x2A]"

definition underscore :: nat where
  "underscore = 0x5F"

definition sanitize_filename :: "pystr \<Rightarrow> pystr" where
  "sanitize_filename name =
     (let name1 = strip (remove_char 0 name);
          name2 = fold (\<lambda>ch n. replace_char ch underscore n) invalid_chars name1
      in if name2 = [] then lit ''unnamed'' else name2)"

definition sanitize_name :: "pystr \<Rightarrow> pystr" where
  "sanitize_name name =
     (let name1 = strip (remove_char 0 name);
          name2 = fold (\<lambda>ch n. replace_char ch underscore n) invalid_chars name1
      in if name2 = [] then lit ''unnamed'' else name2)"

section \<open>Text codecs of the Python runtime\<close>

text \<open>
  \<open>str.encode\<close> and \<open>bytes.decode\<close> belong to the Python runtime, not to this repository.
  ASCII, Latin-1 and UTF-8 are written out. Shift-JIS is written out as CPython's codec
  computes it (ASCII, the yen sign and the overline, the half-width katakana
  \<open>0xA1..0xDF\<close>), except for its double-byte table (JIS X 0208), which is a parameter.
  Codec names other than the four the tool itself writes are a parameter as well, and so
  is the set of file names for which \<open>open(output_path / name, 'wb')\<close> succeeds (the
  operating system limits the length of a file name and refuses some names).
\<close>

record platform =
  jisx0208_dec :: "byte \<Rightarrow> byte \<Rightarrow> nat option"
  jisx0208_enc :: "nat \<Rightarrow> (byte \<times> byte) option"
  other_encode :: "string \<Rightarrow> pystr \<Rightarrow> error + bytes"
  can_write :: "pystr \<Rightarrow> bool"

definition cons_ok :: "'a \<Rightarrow> error + 'a list \<Rightarrow> error + 'a list" where
  "cons_ok c r = (case r of Inl e \<Rightarrow> Inl e | Inr s \<Rightarrow> Inr (c # s))"

fun encode_chars :: "(nat \<Rightarrow> bytes option) \<Rightarrow> pystr \<Rightarrow> error + bytes" where
  "encode_chars f [] = Inr []"
| "encode_chars f (c # cs) =
     (case f c of
        None \<Rightarrow> Inl UnicodeEncodeError
      | Some bs \<Rightarrow> (case encode_chars f cs of Inl e \<Rightarrow> Inl e | Inr r \<Rightarrow> Inr (bs @ r)))"

definition ascii_encode_char :: "nat \<Rightarrow> bytes option" where
  "ascii_encode_char c = (if c < 0x80 then Some [of_nat c] else None)"

definition ascii_encode :: "pystr \<Rightarrow> error + bytes" where
  "ascii_encode s = encode_chars ascii_encode_char s"

definition latin1_encode_char :: "nat \<Rightarrow> bytes option" where
  "latin1_encode_char c = (if c < 0x100 then Some [of_nat c] else None)"

definition latin1_encode :: "pystr \<Rightarrow> error + bytes" where
  "latin1_encode s = encode_chars latin1_encode_char s"

definition latin1_decode :: "bytes \<Rightarrow> pystr" where
  "latin1_decode bs = map unat bs"

definition utf8_encode_char :: "nat \<Rightarrow> bytes option" where
  "utf8_encode_char c =
     (if c < 0x80 then Some [of_nat c]
      else if c < 0x800 then Some [of_nat (0xC0 + c div 64), of_nat (0x80 + c mod 64)]
      else if 0xD800 \<le> c \<and> c \<le> 0xDFFF then None
      else if c < 0x10000 then
        Some [of_nat (0xE0 + c div 4096), of_nat (0x80 + c div 64 mod 64),
              of_nat (0x80 + c mod 64)]
      else if c < 0x110000 then
        Some [of_nat (0xF0 + c div 262144), of_nat (0x80 + c div 4096 mod 64),
              of_nat (0x80 + c div 64 mod 64), of_nat (0x80 + c mod 64)]
      else None)"

definition utf8_encode :: "pystr \<Rightarrow> error + bytes" where
  "utf8_encode s = encode_chars utf8_encode_char s"

definition cont :: "byte \<Rightarrow> bool" where
  "cont b \<longleftrightarrow> 0x80 \<le> unat b \<and> unat b \<le> 0xBF"

fun utf8_decode :: "bytes \<Rightarrow> error + pystr" where
  "utf8_decode [] = Inr []"
| "utf8_decode (b0 # bs) =
     (if unat b0 < 0x80 then cons_ok (unat b0) (utf8_decode bs)
      else if 0xC2 \<le> unat b0 \<and> unat b0 \<le> 0xDF then
        (case bs of
           b1 # r \<Rightarrow>
             if cont b1
             then cons_ok ((unat b0 - 0xC0) * 64 + (unat b1 - 0x80)) (utf8_decode r)
             else Inl UnicodeDecodeError
         | _ \<Rightarrow> Inl UnicodeDecodeError)
      else if 0xE0 \<le> unat b0 \<and> unat b0 \<le> 0xEF then
        (case bs of
           b1 # b2 # r \<Rightarrow>
             if cont b1 \<and> cont b2 \<and> (0xE1 \<le> unat b0 \<or> 0xA0 \<le> unat b1) \<and>
                (unat b0 < 0xED \<or> 0xEE \<le> unat b0 \<or> unat b1 \<le> 0x9F)
             then cons_ok ((unat b0 - 0xE0) * 4096 + (unat b1 - 0x80) * 64 + (unat b2 - 0x80))
                    (utf8_decode r)
             else Inl UnicodeDecodeError
         | _ \<Rightarrow> Inl UnicodeDecodeError)
      else if 0xF0 \<le> unat b0 \<and> unat b0 \<le> 0xF4 then
        (case bs of
           b1 # b2 # b3 # r \<Rightarrow>
             if cont b1 \<and> cont b2 \<and> cont b3 \<and> (0xF1 \<le> unat b0 \<or> 0x90 \<le> unat b1) \<and>
                (unat b0 < 0xF4 \<or> unat b1 \<le> 0x8F)
             then cons_ok ((unat b0 - 0xF0) * 262144 + (unat b1 - 0x80) * 4096 +
                           (unat b2 - 0x80) * 64 + (unat b3 - 0x80)) (utf8_decode r)
             else Inl UnicodeDecodeError
         | _ \<Rightarrow> Inl UnicodeDecodeError)
      else Inl UnicodeDecodeError)"

definition sjis_encode_char :: "platform \<Rightarrow> nat \<Rightarrow> bytes option" where
  "sjis_encode_char P c =
     (if c < 0x80 then Some [of_nat c]
      else if c = 0xA5 then Some [0x5C]
      else if c = 0x203E then Some [0x7E]
      else if 0xFF61 \<le> c \<and> c \<le> 0xFF9F then Some [of_nat (c - 0xFEC0)]
      else (case jisx0208_enc P c of Some (b1, b2) \<Rightarrow> Some [b1, b2] | None \<Rightarrow> None))"

definition sjis_encode :: "platform \<Rightarrow> pystr \<Rightarrow> error + bytes" where
  "sjis_encode P s = encode_chars (sjis_encode_char P) s"

fun sjis_decode :: "platform \<Rightarrow> bytes \<Rightarrow> error + pystr" where
  "sjis_decode P [] = Inr []"
| "sjis_decode P (b # bs) =
     (if unat b < 0x80 then cons_ok (unat b) (sjis_decode P bs)
      else if 0xA1 \<le> unat b \<and> unat b \<le> 0xDF then cons_ok (0xFEC0 + unat b) (sjis_decode P bs)
      else if (0x81 \<le> unat b \<and> unat b \<le> 0x9F) \<or> (0xE0 \<le> unat b \<and> unat b \<le> 0xEA) then
        (case bs of
           [] \<Rightarrow> Inl UnicodeDecodeError
         | b2 # r \<Rightarrow>
             if unat b2 < 0x40 \<or> unat b2 = 0x7F \<or> 0xFC < unat b2 then Inl UnicodeDecodeError
             else (case jisx0208_dec P b b2 of
                     None \<Rightarrow> Inl UnicodeDecodeError
                   | Some u \<Rightarrow> cons_ok u (sjis_decode P r)))
      else Inl UnicodeDecodeError)"

text \<open>\<open>s.encode(enc)\<close> for a codec name \<open>enc\<close>.\<close>

definition str_encode :: "platform \<Rightarrow> string \<Rightarrow> pystr \<Rightarrow> error + bytes" where
  "str_encode P enc s =
     (if enc = ''shift-jis'' then sjis_encode P s
      else if enc = ''utf-8'' then utf8_encode s
      else if enc = ''latin-1'' then latin1_encode s
      else if enc = ''ascii'' then ascii_encode s
      else other_encode P enc s)"

section \<open>The struct module and slicing\<close>

text \<open>
  \<open>data[a:b]\<close> never raises: it is cut at the end of the buffer. \<open>struct.unpack('<I', b)\<close>
  raises unless \<open>b\<close> has exactly four bytes; \<open>struct.pack('<I', n)\<close> raises unless
  \<open>n < 2^32\<close>.
\<close>

definition slice :: "'a list \<Rightarrow> nat \<Rightarrow> nat \<Rightarrow> 'a list" where
  "slice xs a b = take (b - a) (drop a xs)"

definition unpack_I :: "bytes \<Rightarrow> error + nat" where
  "unpack_I b =
     (case b of
        [b0, b1, b2, b3] \<Rightarrow>
          Inr (unat b0 + 256 * unat b1 + 65536 * unat b2 + 16777216 * unat b3)
      | _ \<Rightarrow> Inl StructError)"

definition le32 :: "nat \<Rightarrow> bytes" where
  "le32 n = [of_nat n, of_nat (n div 256), of_nat (n div 65536), of_nat (n div 16777216)]"

definition pack_I :: "nat \<Rightarrow> error + bytes" where
  "pack_I n = (if n < 2 ^ 32 then Inr (le32 n) else Inl StructError)"

section \<open>FSOPUnpacker.unpack\<close>

text \<open>
  One entry of \<open>metadata.json\<close>: a JSON object whose four keys may each be absent.
\<close>

record shader_info =
  name :: "pystr option"
  encoding :: "string option"
  vertex_shader_file :: "pystr option"
  pixel_shader_file :: "pystr option"

text \<open>
  A directory maps a file name (a path relative to the directory) to what is there: a file
  with its contents, or something that exists and cannot be opened as a file (a directory,
  as for the reference \<open>''\<close>, which is the directory itself).
\<close>

datatype node = File bytes | NotAFile

type_synonym directory = "pystr \<rightharpoonup> node"

text \<open>What one pass of the loop produces: the index entry and the two files' contents.\<close>

record extracted =
  info :: shader_info
  vs_data :: bytes
  ps_data :: bytes

definition decode_name :: "platform \<Rightarrow> bytes \<Rightarrow> pystr" where
  "decode_name P name_bytes =
     (case sjis_decode P name_bytes of
        Inr s \<Rightarrow> s
      | Inl _ \<Rightarrow> (case utf8_decode name_bytes of
                    Inr s \<Rightarrow> s
                  | Inl _ \<Rightarrow> latin1_decode name_bytes))"

definition determine_encoding :: "platform \<Rightarrow> pystr \<Rightarrow> string" where
  "determine_encoding P name_raw =
     (case sjis_encode P name_raw of
        Inr _ \<Rightarrow> ''shift-jis''
      | Inl _ \<Rightarrow> (case utf8_encode name_raw of
                    Inr _ \<Rightarrow> ''utf-8''
                  | Inl _ \<Rightarrow> ''latin-1''))"

text \<open>
  Lines 55-112 of the body of the \<open>while\<close> loop, for \<open>offset < len(data)\<close>: what one pass
  reads from the buffer and appends to \<open>self.shaders\<close>. The two file writes that end the
  pass (lines 114-122) are \<open>write_file\<close> in \<open>unpack_files_loop\<close> below.
\<close>

definition unpack_step :: "platform \<Rightarrow> bytes \<Rightarrow> nat \<Rightarrow> error + (extracted \<times> nat)" where
  "unpack_step P data offset =
     (let name_length = unat (data ! offset);
          offset1 = offset + 1;
          name_bytes = slice data offset1 (offset1 + name_length);
          name_raw = decode_name P name_bytes;
          safe = sanitize_filename name_raw;
          enc = determine_encoding P name_raw;
          offset2 = offset1 + name_length
      in case unpack_I (slice data offset2 (offset2 + 4)) of
           Inl e \<Rightarrow> Inl e
         | Inr vs_size \<Rightarrow>
             (let offset3 = offset2 + 4;
                  vs = xor_decrypt (slice data offset3 (offset3 + vs_size));
                  offset4 = offset3 + vs_size
              in case unpack_I (slice data offset4 (offset4 + 4)) of
                   Inl e \<Rightarrow> Inl e
                 | Inr ps_size \<Rightarrow>
                     (let offset5 = offset4 + 4;
                          ps = xor_decrypt (slice data offset5 (offset5 + ps_size));
                          offset6 = offset5 + ps_size
                      in Inr (\<lparr>info = \<lparr>name = Some name_raw, encoding = Some enc,
                                       vertex_shader_file = Some (safe @ lit ''_vs.fxc''),
                                       pixel_shader_file = Some (safe @ lit ''_ps.fxc'')\<rparr>,
                                vs_data = vs, ps_data = ps\<rparr>, offset6))))"

function unpack_loop ::
  "platform \<Rightarrow> bytes \<Rightarrow> nat \<Rightarrow> extracted list \<Rightarrow> error + extracted list" where
  "unpack_loop P data offset shaders =
     (if offset < length data then
        (case unpack_step P data offset of
           Inl e \<Rightarrow> Inl e
         | Inr (x, offset') \<Rightarrow> unpack_loop P data offset' (shaders @ [x]))
      else Inr shaders)"
  by pat_completeness auto
termination
proof (relation "measure (\<lambda>(P, data, offset, shaders). length data - offset)")
  show "wf (measure (\<lambda>(P, data, offset, shaders). length data - offset))" by simp
next
  fix P :: platform and data :: bytes and offset :: nat and shaders :: "extracted list"
    and x2 :: "extracted \<times> nat" and x :: extracted and y :: nat
  assume lt: "offset < length data" and st: "unpack_step P data offset = Inr x2"
    and x2: "(x, y) = x2"
  from st x2 have "offset < y"
    by (auto simp: unpack_step_def Let_def split: sum.splits)
  with lt show "((P, data, y, shaders @ [x]), (P, data, offset, shaders))
      \<in> measure (\<lambda>(P, data, offset, shaders). length data - offset)"
    by simp
qed

declare unpack_loop.simps [simp del]

text \<open>
  \<open>unpack_loop\<close> and \<open>unpack\<close> are the loop without its file writes: the records the loop
  decodes, in memory. The loop as it is written follows.
\<close>

definition unpack :: "platform \<Rightarrow> bytes \<Rightarrow> error + extracted list" where
  "unpack P data = unpack_loop P data 0 []"

text \<open>
  \<open>with open(file, 'wb') as f: f.write(data)\<close>: the file is created or replaced; \<open>open\<close>
  raises \<open>OSError\<close> where the platform refuses the name.
\<close>

definition write_file :: "platform \<Rightarrow> directory \<Rightarrow> pystr \<Rightarrow> bytes \<Rightarrow> error + directory" where
  "write_file P d file_name content =
     (if can_write P file_name then Inr (d(file_name \<mapsto> File content)) else Inl OSError)"

text \<open>
  The f-strings of lines 115 and 120 are the strings stored in the entry at lines 109-110.
\<close>

definition vs_file_name :: "extracted \<Rightarrow> pystr" where
  "vs_file_name x = (case vertex_shader_file (info x) of Some f \<Rightarrow> f | None \<Rightarrow> [])"

definition ps_file_name :: "extracted \<Rightarrow> pystr" where
  "ps_file_name x = (case pixel_shader_file (info x) of Some f \<Rightarrow> f | None \<Rightarrow> [])"

text \<open>
  The whole loop, lines 54-128: each pass decodes one record, appends its entry to
  \<open>self.shaders\<close> and writes the two blobs into the output directory, the vertex file first.
  A later pass that writes the same file name replaces the earlier contents. The result is
  the output directory as the run leaves it and either the exception that ended the run or
  the entry list written to \<open>metadata.json\<close>.
\<close>

function unpack_files_loop ::
  "platform \<Rightarrow> bytes \<Rightarrow> nat \<Rightarrow> shader_info list \<Rightarrow> directory \<Rightarrow>
   directory \<times> (error + shader_info list)" where
  "unpack_files_loop P data offset shaders d =
     (if offset < length data then
        (case unpack_step P data offset of
           Inl e \<Rightarrow> (d, Inl e)
         | Inr (x, offset') \<Rightarrow>
             (case write_file P d (vs_file_name x) (vs_data x) of
                Inl e \<Rightarrow> (d, Inl e)
              | Inr d1 \<Rightarrow>
                  (case write_file P d1 (ps_file_name x) (ps_data x) of
                     Inl e \<Rightarrow> (d1, Inl e)
                   | Inr d2 \<Rightarrow> unpack_files_loop P data offset' (shaders @ [info x]) d2)))
      else (d, Inr shaders))"
  by pat_completeness auto
termination
proof (relation "measure (\<lambda>(P, data, offset, shaders, d). length data - offset)")
  show "wf (measure (\<lambda>(P, data, offset, shaders, d). length data - offset))" by simp
next
  fix P :: platform and data :: bytes and offset :: nat and shaders :: "shader_info list"
    and d d2 :: directory and x2 :: "extracted \<times> nat" and x :: extracted and y :: nat
  assume lt: "offset < length data" and st: "unpack_step P data offset = Inr x2"
    and x2: "(x, y) = x2"
  from st x2 have "offset < y"
    by (auto simp: unpack_step_def Let_def split: sum.splits)
  with lt show "((P, data, y, shaders @ [info x], d2), (P, data, offset, shaders, d))
      \<in> measure (\<lambda>(P, data, offset, shaders, d). length data - offset)"
    by simp
qed

declare unpack_files_loop.simps [simp del]

definition unpack_files ::
  "platform \<Rightarrow> bytes \<Rightarrow> directory \<Rightarrow> directory \<times> (error + shader_info list)" where
  "unpack_files P data d = unpack_files_loop P data 0 [] d"

section \<open>FSOPPacker\<close>

definition detect_encoding :: "platform \<Rightarrow> pystr \<Rightarrow> string" where
  "detect_encoding P text =
     (let try_utf8 = (case utf8_encode text of Inr _ \<Rightarrow> ''utf-8'' | Inl _ \<Rightarrow> ''latin-1'')
      in case ascii_encode text of
           Inr _ \<Rightarrow> ''ascii''
         | Inl _ \<Rightarrow>
             (case sjis_encode P text of
                Inl _ \<Rightarrow> try_utf8
              | Inr encoded_sjis \<Rightarrow>
                  (case sjis_decode P encoded_sjis of
                     Inl _ \<Rightarrow> try_utf8
                   | Inr back \<Rightarrow>
                       if text = back then
                         (case utf8_encode text of
                            Inr encoded_utf8 \<Rightarrow>
                              if length encoded_utf8 \<le> length encoded_sjis
                              then ''utf-8'' else ''shift-jis''
                          | Inl _ \<Rightarrow> ''shift-jis'')
                       else try_utf8)))"

text \<open>
  The two places that add the terminator: line 250 for a newly found pair, lines 282-283 in
  the packing loop.
\<close>

definition add_null_terminator :: "pystr \<Rightarrow> pystr" where
  "add_null_terminator base_name = (if endswith base_name [0] then base_name else base_name @ [0])"

definition ensure_null_terminator :: "pystr \<Rightarrow> pystr" where
  "ensure_null_terminator shader_name =
     (if endswith shader_name [0] then shader_name else shader_name @ [0])"

text \<open>How many null characters a string ends with.\<close>

definition trailing_nulls :: "pystr \<Rightarrow> nat" where
  "trailing_nulls s = length (takeWhile (\<lambda>c. c = 0) (rev s))"

text \<open>The file names the index already refers to.\<close>

definition known_files :: "shader_info list \<Rightarrow> pystr set" where
  "known_files shaders =
     set (concat (map (\<lambda>si. (case vertex_shader_file si of Some f \<Rightarrow> [f] | None \<Rightarrow> []) @
                             (case pixel_shader_file si of Some f \<Rightarrow> [f] | None \<Rightarrow> []))
                      shaders))"

text \<open>
  One pass of the loop over \<open>all_fxc_files\<close>; the state is \<open>new_shaders\<close> and
  \<open>processed_files\<close>. The set \<open>all_fxc_files\<close> is iterated in an order Python does not
  fix, so the iteration order is given as a list.
\<close>

definition scan_file ::
  "platform \<Rightarrow> pystr set \<Rightarrow> pystr set \<Rightarrow> pystr \<Rightarrow> shader_info list \<times> pystr set \<Rightarrow>
   shader_info list \<times> pystr set" where
  "scan_file P all_files known fxc_file st =
     (case st of (new_shaders, processed_files) \<Rightarrow>
        if fxc_file \<in> known \<or> fxc_file \<in> processed_files then st
        else if endswith fxc_file (lit ''_vs.fxc'') then
          (let base_name = take (length fxc_file - 7) fxc_file;
               ps_file = base_name @ lit ''_ps.fxc''
           in if ps_file \<in> all_files \<and> ps_file \<notin> known then
                (new_shaders @
                   [\<lparr>name = Some (add_null_terminator base_name),
                     encoding = Some (detect_encoding P base_name),
                     vertex_shader_file = Some fxc_file,
                     pixel_shader_file = Some ps_file\<rparr>],
                 processed_files \<union> {fxc_file, ps_file})
              else st)
        else st)"

definition find_new_shaders :: "platform \<Rightarrow> pystr list \<Rightarrow> shader_info list \<Rightarrow> shader_info list" where
  "find_new_shaders P all_fxc_files shaders =
     fst (fold (scan_file P (set all_fxc_files) (known_files shaders)) all_fxc_files ([], {}))"

text \<open>The fallback chain around \<open>shader_name.encode(encoding)\<close>; the bare \<open>except\<close> catches all.\<close>

definition encode_name :: "platform \<Rightarrow> string \<Rightarrow> pystr \<Rightarrow> error + bytes" where
  "encode_name P enc shader_name =
     (case str_encode P enc shader_name of
        Inr b \<Rightarrow> Inr b
      | Inl _ \<Rightarrow>
          (case sjis_encode P shader_name of
             Inr b \<Rightarrow> Inr b
           | Inl _ \<Rightarrow>
               (case utf8_encode shader_name of
                  Inr b \<Rightarrow> Inr b
                | Inl _ \<Rightarrow> latin1_encode shader_name)))"

text \<open>
  Lines 307-335: the bytes one entry appends to \<open>output_data\<close>. \<open>bytearray.append\<close> raises
  \<open>ValueError\<close> for a value above 255.
\<close>

definition encode_record :: "platform \<Rightarrow> string \<Rightarrow> pystr \<Rightarrow> bytes \<Rightarrow> bytes \<Rightarrow> error + bytes" where
  "encode_record P enc shader_name vs ps =
     (case encode_name P enc shader_name of
        Inl e \<Rightarrow> Inl e
      | Inr name_bytes \<Rightarrow>
          (let vs_data_encrypted = xor_encrypt vs;
               ps_data_encrypted = xor_encrypt ps
           in if 255 < length name_bytes then Inl ValueError
              else (case pack_I (length vs_data_encrypted) of
                      Inl e \<Rightarrow> Inl e
                    | Inr vs_size \<Rightarrow>
                        (case pack_I (length ps_data_encrypted) of
                           Inl e \<Rightarrow> Inl e
                         | Inr ps_size \<Rightarrow>
                             Inr ([of_nat (length name_bytes)] @ name_bytes @
                                  vs_size @ vs_data_encrypted @
                                  ps_size @ ps_data_encrypted)))))"

text \<open>\<open>shader_info.get('encoding', 'shift-jis')\<close>.\<close>

definition entry_tag :: "shader_info \<Rightarrow> string" where
  "entry_tag si = (case encoding si of None \<Rightarrow> ''shift-jis'' | Some e \<Rightarrow> e)"

text \<open>
  The body of the loop over \<open>metadata['shaders']\<close> for one entry: \<open>None\<close> when the entry
  is skipped by a \<open>continue\<close> (no name, a file field missing, a file that does not exist),
  otherwise the outcome of reading the two files and encoding the entry. A reference that
  exists and is not a file passes the test of line 296 and makes \<open>open\<close> raise.
\<close>

definition pack_entry ::
  "platform \<Rightarrow> directory \<Rightarrow> shader_info \<Rightarrow> (error + bytes) option" where
  "pack_entry P fs si =
     (case name si of
        None \<Rightarrow> None
      | Some nm \<Rightarrow>
          (case vertex_shader_file si of
             None \<Rightarrow> None
           | Some vs_filename \<Rightarrow>
               (case pixel_shader_file si of
                  None \<Rightarrow> None
                | Some ps_filename \<Rightarrow>
                    (case fs vs_filename of
                       None \<Rightarrow> None
                     | Some vs_node \<Rightarrow>
                         (case fs ps_filename of
                            None \<Rightarrow> None
                          | Some ps_node \<Rightarrow>
                              (case vs_node of
                                 NotAFile \<Rightarrow> Some (Inl OSError)
                               | File vs \<Rightarrow>
                                   (case ps_node of
                                      NotAFile \<Rightarrow> Some (Inl OSError)
                                    | File ps \<Rightarrow>
                                        Some (encode_record P (entry_tag si)
                                                (ensure_null_terminator nm) vs ps))))))))"

text \<open>
  The loop itself; \<open>output_data\<close> and \<open>packed_count\<close> are the state. An exception leaves
  the loop before the output file is written.
\<close>

fun pack_loop ::
  "platform \<Rightarrow> directory \<Rightarrow> shader_info list \<Rightarrow> bytes \<Rightarrow> nat \<Rightarrow> error + (bytes \<times> nat)" where
  "pack_loop P fs [] output_data packed_count = Inr (output_data, packed_count)"
| "pack_loop P fs (si # rest) output_data packed_count =
     (case pack_entry P fs si of
        None \<Rightarrow> pack_loop P fs rest output_data packed_count
      | Some (Inl e) \<Rightarrow> Inl e
      | Some (Inr bs) \<Rightarrow> pack_loop P fs rest (output_data @ bs) (packed_count + 1))"

text \<open>
  \<open>pack\<close>: without \<open>metadata.json\<close> it returns \<open>None\<close>; otherwise it extends the index by the
  new pairs, saves it when there are any, and packs. \<open>saved_metadata\<close> is what is written
  back to \<open>metadata.json\<close>, \<open>returned\<close> the outcome of the packing loop (\<open>None\<close> for the
  early return).
\<close>

record pack_outcome =
  saved_metadata :: "shader_info list option"
  returned :: "error + (bytes \<times> nat) option"

definition pack ::
  "platform \<Rightarrow> directory \<Rightarrow> pystr list \<Rightarrow> shader_info list option \<Rightarrow> pack_outcome" where
  "pack P fs all_fxc_files metadata =
     (case metadata of
        None \<Rightarrow> \<lparr>saved_metadata = None, returned = Inr None\<rparr>
      | Some shaders \<Rightarrow>
          (let new_shaders = find_new_shaders P all_fxc_files shaders;
               shaders' = shaders @ new_shaders
           in \<lparr>saved_metadata = (if new_shaders = [] then None else Some shaders'),
               returned = (case pack_loop P fs shaders' [] 0 of
                             Inl e \<Rightarrow> Inl e
                           | Inr r \<Rightarrow> Inr (Some r))\<rparr>))"

section \<open>Notions used in the statements, and concrete inputs\<close>

text \<open>
  An entry that names both blob files while at least one of them is not in the directory,
  and the bytes an entry adds to the output when it is packed.
\<close>

definition missing_blob :: "directory \<Rightarrow> shader_info \<Rightarrow> bool" where
  "missing_blob fs si =
     (case vertex_shader_file si of
        None \<Rightarrow> False
      | Some vs_filename \<Rightarrow>
          (case pixel_shader_file si of
             None \<Rightarrow> False
           | Some ps_filename \<Rightarrow> fs vs_filename = None \<or> fs ps_filename = None))"


definition encode_fails :: "platform \<Rightarrow> directory \<Rightarrow> shader_info \<Rightarrow> bool" where
  "encode_fails P fs si = (case pack_entry P fs si of Some (Inl e) \<Rightarrow> True | _ \<Rightarrow> False)"

text \<open>
  A platform for evaluating concrete inputs: no double-byte character, no further codec,
  every file name can be written. None of the inputs evaluated below reaches the table or
  another codec.
\<close>

definition plain_platform :: platform where
  "plain_platform =
     \<lparr>jisx0208_dec = (\<lambda>_ _. None), jisx0208_enc = (\<lambda>_. None),
      other_encode = (\<lambda>_ _. Inl LookupError), can_write = (\<lambda>_. True)\<rparr>"

text \<open>A string of ASCII characters only.\<close>

definition is_ascii :: "pystr \<Rightarrow> bool" where
  "is_ascii s = list_all (\<lambda>c. c < 0x80) s"

text \<open>
  Concrete inputs: a name of 256 letters, a directory with the two files of shader \<open>B\<close>
  only, and three index entries (\<open>A\<close>, whose files are not there, \<open>B\<close>, and one with the
  long name).
\<close>

definition long_name :: pystr where
  "long_name = replicate 256 0x41"

definition demo_dir :: directory where
  "demo_dir = [lit ''B_vs.fxc'' \<mapsto> File [], lit ''B_ps.fxc'' \<mapsto> File [1, 2, 3]]"

definition entry_A :: shader_info where
  "entry_A = \<lparr>name = Some (lit ''A''), encoding = Some ''utf-8'',
       vertex_shader_file = Some (lit ''A_vs.fxc''),
       pixel_shader_file = Some (lit ''A_ps.fxc'')\<rparr>"

definition entry_B :: shader_info where
  "entry_B = \<lparr>name = Some (lit ''B''), encoding = Some ''utf-8'',
       vertex_shader_file = Some (lit ''B_vs.fxc''),
       pixel_shader_file = Some (lit ''B_ps.fxc'')\<rparr>"

definition entry_long :: shader_info where
  "entry_long = \<lparr>name = Some long_name, encoding = Some ''utf-8'',
       vertex_shader_file = Some (lit ''B_vs.fxc''),
       pixel_shader_file = Some (lit ''B_ps.fxc'')\<rparr>"

text \<open>
  The container layout of the specification: a record is the length byte, the name bytes,
  the little-endian vertex size, the stored vertex bytes, the little-endian pixel size and
  the stored pixel bytes. A container is a concatenation of records; a cut container is a
  container whose last record has lost some of its pixel bytes at the end.
\<close>

datatype raw = Raw (raw_name: bytes) (raw_vertex: bytes) (raw_pixel: bytes)

definition record_bytes :: "raw \<Rightarrow> bytes" where
  "record_bytes r =
     [of_nat (length (raw_name r))] @ raw_name r @
     le32 (length (raw_vertex r)) @ raw_vertex r @
     le32 (length (raw_pixel r)) @ raw_pixel r"

definition valid_raw :: "raw \<Rightarrow> bool" where
  "valid_raw r \<longleftrightarrow>
     length (raw_name r) < 256 \<and> length (raw_vertex r) < 2 ^ 32 \<and> length (raw_pixel r) < 2 ^ 32"

definition last_pixel_length :: "raw list \<Rightarrow> nat" where
  "last_pixel_length raws = (case rev raws of [] \<Rightarrow> 0 | r # _ \<Rightarrow> length (raw_pixel r))"

definition is_container :: "bytes \<Rightarrow> bool" where
  "is_container data \<longleftrightarrow>
     (\<exists>raws. list_all valid_raw raws \<and> data = concat (map record_bytes raws))"

definition is_cut_container :: "bytes \<Rightarrow> bool" where
  "is_cut_container data \<longleftrightarrow>
     (\<exists>raws pad. list_all valid_raw raws \<and> data @ pad = concat (map record_bytes raws) \<and>
                 length pad \<le> last_pixel_length raws)"

text \<open>What the loop body makes of one record.\<close>

definition decode_raw :: "platform \<Rightarrow> raw \<Rightarrow> extracted" where
  "decode_raw P r =
     \<lparr>info = \<lparr>name = Some (decode_name P (raw_name r)),
              encoding = Some (determine_encoding P (decode_name P (raw_name r))),
              vertex_shader_file =
                Some (sanitize_filename (decode_name P (raw_name r)) @ lit ''_vs.fxc''),
              pixel_shader_file =
                Some (sanitize_filename (decode_name P (raw_name r)) @ lit ''_ps.fxc'')\<rparr>,
      vs_data = xor_decrypt (raw_vertex r), ps_data = xor_decrypt (raw_pixel r)\<rparr>"

text \<open>
  The buffer of the specification's end-to-end scenario with its last two pixel bytes cut
  off, and an index entry whose name is the letter e with an acute accent, tagged UTF-8.
\<close>

definition cut_example :: bytes where
  "cut_example = [0x01, 0x41, 0, 0, 0, 0, 3, 0, 0, 0, 0xCD]"
















text \<open>
  A directory with the files of two shaders, and the index entry of the second.
\<close>

definition two_shader_dir :: directory where
  "two_shader_dir =
     [lit ''B_vs.fxc'' \<mapsto> File [], lit ''B_ps.fxc'' \<mapsto> File [1, 2, 3],
      lit ''C_vs.fxc'' \<mapsto> File [4, 5], lit ''C_ps.fxc'' \<mapsto> File [6]]"


text \<open>A second index entry of the name \<open>B\<close>, with the files of shader \<open>C\<close>.\<close>

definition entry_B2 :: shader_info where
  "entry_B2 = \<lparr>name = Some (lit ''B''), encoding = Some ''utf-8'',
       vertex_shader_file = Some (lit ''C_vs.fxc''),
       pixel_shader_file = Some (lit ''C_ps.fxc'')\<rparr>"

section \<open>Properties of the XOR transform\<close>

lemma xor_9C_twice: "((b :: byte) XOR 0x9C) XOR 0x9C = b"
  by (simp add: xor.assoc)

text \<open>
  Claim C8. The XOR transform is an involution: applying the byte-wise XOR with 0x9C twice
  gives back the byte sequence, for the unpacker's \<open>xor_decrypt\<close>, the packer's
  \<open>xor_encrypt\<close>, and the one after the other in either order.
\<close>

theorem xor_involution:
  "xor_decrypt (xor_decrypt b) = b \<and> xor_encrypt (xor_encrypt b) = b \<and>
   xor_decrypt (xor_encrypt b) = b \<and> xor_encrypt (xor_decrypt b) = b"
  by (simp add: xor_decrypt_def xor_encrypt_def xor_9C_twice o_def)

section \<open>Properties of sanitization\<close>

lemma fold_replace_char:
  "new \<notin> set cs \<Longrightarrow>
   fold (\<lambda>ch n. replace_char ch new n) cs s = map (\<lambda>c. if c \<in> set cs then new else c) s"
proof (induction cs arbitrary: s)
  case Nil
  then show ?case by simp
next
  case (Cons a cs)
  then have "new \<notin> set cs" and "new \<noteq> a" by auto
  then show ?case
    using Cons.IH [of "replace_char a new s"] by (auto simp: replace_char_def)
qed

lemma underscore_not_invalid: "underscore \<notin> set invalid_chars"
  by (simp add: underscore_def invalid_chars_def)

lemma sanitize_filename_eq:
  "sanitize_filename s =
     (let t = map (\<lambda>c. if c \<in> set invalid_chars then underscore else c)
                (strip (filter (\<lambda>c. c \<noteq> 0) s))
      in if t = [] then lit ''unnamed'' else t)"
  by (simp add: sanitize_filename_def Let_def remove_char_def
      fold_replace_char [OF underscore_not_invalid])

lemma strip_hd: "strip s \<noteq> [] \<Longrightarrow> \<not> isspace (hd (strip s))"
proof -
  assume ne: "strip s \<noteq> []"
  let ?t = "dropWhile isspace s"
  have "strip s = rev (dropWhile isspace (rev ?t))" by (simp add: strip_def)
  have pre: "\<exists>zs. ?t = strip s @ zs"
  proof -
    have "rev ?t = takeWhile isspace (rev ?t) @ dropWhile isspace (rev ?t)" by simp
    then have "?t = rev (dropWhile isspace (rev ?t)) @ rev (takeWhile isspace (rev ?t))"
      by (metis rev_append rev_rev_ident)
    then show ?thesis by (metis strip_def)
  qed
  then obtain zs where t: "?t = strip s @ zs" by blast
  with ne have "?t \<noteq> []" by auto
  then have "\<not> isspace (hd ?t)" by (rule hd_dropWhile)
  moreover from t ne have "hd ?t = hd (strip s)" by (metis hd_append2)
  ultimately show ?thesis by simp
qed

lemma strip_last: "strip s \<noteq> [] \<Longrightarrow> \<not> isspace (last (strip s))"
proof -
  assume ne: "strip s \<noteq> []"
  let ?r = "dropWhile isspace (rev (dropWhile isspace s))"
  from ne have "?r \<noteq> []" by (simp add: strip_def)
  then have "\<not> isspace (hd ?r)" by (rule hd_dropWhile)
  moreover have "last (strip s) = hd ?r"
    using \<open>?r \<noteq> []\<close> by (simp add: strip_def last_rev)
  ultimately show ?thesis by simp
qed

lemma strip_subset: "set (strip s) \<subseteq> set s"
proof -
  have "set (strip s) \<subseteq> set (dropWhile isspace s)"
    unfolding strip_def using set_dropWhileD by fastforce
  also have "\<dots> \<subseteq> set s" using set_dropWhileD by fastforce
  finally show ?thesis .
qed

lemma underscore_not_space: "\<not> isspace underscore"
  by (simp add: underscore_def isspace_def)

lemma unnamed_props:
  "lit ''unnamed'' \<noteq> []" "0 \<notin> set (lit ''unnamed'')"
  "set (lit ''unnamed'') \<inter> set invalid_chars = {}"
  "\<not> isspace (hd (lit ''unnamed''))" "\<not> isspace (last (lit ''unnamed''))"
  by (simp_all add: lit_def invalid_chars_def isspace_def)

lemma sanitize_filename_props:
  "sanitize_filename s \<noteq> [] \<and> 0 \<notin> set (sanitize_filename s) \<and>
   set (sanitize_filename s) \<inter> set invalid_chars = {} \<and>
   \<not> isspace (hd (sanitize_filename s)) \<and> \<not> isspace (last (sanitize_filename s))"
proof -
  let ?u = "strip (filter (\<lambda>c. c \<noteq> 0) s)"
  let ?f = "\<lambda>c. if c \<in> set invalid_chars then underscore else c"
  let ?t = "map ?f ?u"
  have eq: "sanitize_filename s = (if ?t = [] then lit ''unnamed'' else ?t)"
    by (simp add: sanitize_filename_eq Let_def)
  show ?thesis
  proof (cases "?u = []")
    case True
    then show ?thesis using eq unnamed_props by simp
  next
    case False
    have z: "0 \<notin> set ?u" using strip_subset [of "filter (\<lambda>c. c \<noteq> 0) s"] by auto
    have a: "0 \<notin> set ?t" using z by (auto simp: underscore_def)
    have b: "set ?t \<inter> set invalid_chars = {}"
      using underscore_not_invalid by auto
    have sp: "\<And>c. \<not> isspace c \<Longrightarrow> \<not> isspace (?f c)"
      using underscore_not_space by simp
    have c: "\<not> isspace (hd ?t)"
      using False strip_hd [OF False] sp by (simp add: hd_map)
    have d: "\<not> isspace (last ?t)"
      using False strip_last [OF False] sp by (simp add: last_map)
    from False have "sanitize_filename s = ?t" using eq by simp
    with False a b c d show ?thesis by simp
  qed
qed

text \<open>
  Claim C9. For every input string, \<open>sanitize_filename\<close> is the string with the null
  characters removed, then stripped of surrounding whitespace, then with each of
  \<open>< > : " / \ | ? *\<close> replaced by an underscore, and \<open>"unnamed"\<close> when that is empty.
  So the result is never empty, holds no null and none of the nine characters, and neither
  starts nor ends with whitespace. The three examples of the specification evaluate as
  stated: \<open>"a/b:c"\<close> gives \<open>"a_b_c"\<close>, the empty string gives \<open>"unnamed"\<close>, and
  \<open>"x\x00 "\<close> gives \<open>"x"\<close>.
\<close>

theorem sanitize_filename_correct:
  "sanitize_filename s =
     (let t = map (\<lambda>c. if c \<in> set invalid_chars then underscore else c)
                (strip (filter (\<lambda>c. c \<noteq> 0) s))
      in if t = [] then lit ''unnamed'' else t) \<and>
   sanitize_filename s \<noteq> [] \<and> 0 \<notin> set (sanitize_filename s) \<and>
   set (sanitize_filename s) \<inter> set invalid_chars = {} \<and>
   \<not> isspace (hd (sanitize_filename s)) \<and> \<not> isspace (last (sanitize_filename s)) \<and>
   sanitize_filename (lit ''a/b:c'') = lit ''a_b_c'' \<and>
   sanitize_filename [] = lit ''unnamed'' \<and>
   sanitize_filename (lit ''x'' @ [0, 0x20]) = lit ''x''"
proof -
  have ex1: "sanitize_filename (lit ''a/b:c'') = lit ''a_b_c''"
    by (simp add: sanitize_filename_def lit_def remove_char_def strip_def isspace_def
        invalid_chars_def replace_char_def underscore_def)
  have ex2: "sanitize_filename [] = lit ''unnamed''"
    by (simp add: sanitize_filename_def lit_def remove_char_def strip_def isspace_def
        invalid_chars_def replace_char_def underscore_def)
  have ex3: "sanitize_filename (lit ''x'' @ [0, 0x20]) = lit ''x''"
    by (simp add: sanitize_filename_def lit_def remove_char_def strip_def isspace_def
        invalid_chars_def replace_char_def underscore_def)
  show ?thesis
    using sanitize_filename_eq [of s] sanitize_filename_props [of s] ex1 ex2 ex3 by simp
qed

text \<open>
  Claim C10. The unpacker's \<open>sanitize_filename\<close> and the packer's \<open>sanitize_name\<close>, defined
  separately in the two classes, return the same result on every input string.
\<close>

theorem sanitize_name_agrees: "sanitize_filename s = sanitize_name s"
  by (simp add: sanitize_filename_def sanitize_name_def)

section \<open>The null terminator\<close>

lemma endswith_null_iff: "endswith s [0::nat] \<longleftrightarrow> s \<noteq> [] \<and> last s = 0"
proof (cases s rule: rev_cases)
  case Nil
  then show ?thesis by (simp add: endswith_def)
next
  case (snoc ys y)
  then show ?thesis by (auto simp: endswith_def)
qed

lemma endswith_null_trailing: "endswith s [0::nat] \<longleftrightarrow> 0 < trailing_nulls s"
proof (cases s rule: rev_cases)
  case Nil
  then show ?thesis by (simp add: endswith_def trailing_nulls_def)
next
  case (snoc ys y)
  then show ?thesis by (auto simp: endswith_def trailing_nulls_def)
qed

lemma trailing_nulls_snoc: "trailing_nulls (s @ [0]) = Suc (trailing_nulls s)"
  by (simp add: trailing_nulls_def)

text \<open>
  Claim C6, as stated, fails: a name that already ends with two null characters is left as
  it is, by both normalizations, and so ends with two of them.
\<close>

theorem null_terminator_counterexample:
  "ensure_null_terminator (lit ''A'' @ [0, 0]) = lit ''A'' @ [0, 0] \<and>
   add_null_terminator (lit ''A'' @ [0, 0]) = lit ''A'' @ [0, 0] \<and>
   endswith (ensure_null_terminator (lit ''A'' @ [0, 0])) [0, 0] \<and>
   trailing_nulls (ensure_null_terminator (lit ''A'' @ [0, 0])) = 2"
  by (simp add: ensure_null_terminator_def add_null_terminator_def endswith_def lit_def
      trailing_nulls_def)

text \<open>
  Claim C6, amended. For every name, both normalizations append one null character when
  the name does not end with one and leave the name unchanged otherwise. The result
  therefore ends with at least one null character, and with exactly one unless the name
  already ended with two or more: it ends with \<open>max 1 n\<close> of them, \<open>n\<close> being the number
  the name ended with.
\<close>

theorem null_terminator_normalization:
  "ensure_null_terminator s = s @ replicate (1 - trailing_nulls s) 0 \<and>
   add_null_terminator s = s @ replicate (1 - trailing_nulls s) 0 \<and>
   trailing_nulls (ensure_null_terminator s) = max 1 (trailing_nulls s) \<and>
   trailing_nulls (add_null_terminator s) = max 1 (trailing_nulls s)"
proof (cases "endswith s [0]")
  case True
  then have "0 < trailing_nulls s" by (simp add: endswith_null_trailing)
  with True show ?thesis
    by (simp add: ensure_null_terminator_def add_null_terminator_def max_def)
next
  case False
  then have "trailing_nulls s = 0" by (simp add: endswith_null_trailing)
  with False show ?thesis
    by (simp add: ensure_null_terminator_def add_null_terminator_def trailing_nulls_snoc)
qed

theorem null_terminator_normalization_witness:
  "ensure_null_terminator (lit ''A'') = lit ''A'' @ [0] \<and>
   trailing_nulls (ensure_null_terminator (lit ''A'')) = 1"
  using null_terminator_normalization [of "lit ''A''"]
  by (simp add: trailing_nulls_def lit_def)

section \<open>Encoding detection\<close>

lemma encode_chars_ascii:
  "list_all (\<lambda>c. c < 0x80) s \<Longrightarrow> encode_chars ascii_encode_char s = Inr (map of_nat s)"
  by (induction s) (auto simp: ascii_encode_char_def)

lemma encode_chars_ascii_iff:
  "(\<exists>b. encode_chars ascii_encode_char s = Inr b) \<longleftrightarrow> list_all (\<lambda>c. c < 0x80) s"
  by (induction s) (auto simp: ascii_encode_char_def split: sum.splits)

text \<open>
  Claim C4, as stated, fails: for the pure-ASCII base name \<open>abc\<close> the inferred tag is
  \<open>'ascii'\<close>, which is none of the three recognized tags and not \<open>'utf-8'\<close>.
\<close>

theorem detect_encoding_counterexample:
  "detect_encoding plain_platform (lit ''abc'') = ''ascii'' \<and>
   detect_encoding plain_platform (lit ''abc'') \<notin> {''shift-jis'', ''utf-8'', ''latin-1''} \<and>
   detect_encoding plain_platform (lit ''abc'') \<noteq> ''utf-8''"
  by (simp add: detect_encoding_def ascii_encode_def ascii_encode_char_def lit_def)

text \<open>
  Claim C4, amended. For every base name, the inferred tag is one of the four strings
  \<open>'ascii'\<close>, \<open>'shift-jis'\<close>, \<open>'utf-8'\<close>, \<open>'latin-1'\<close>; it is \<open>'ascii'\<close> for every
  pure-ASCII base name, and only for those.
\<close>

theorem detect_encoding_tags:
  "detect_encoding P text \<in> {''ascii'', ''shift-jis'', ''utf-8'', ''latin-1''} \<and>
   (list_all (\<lambda>c. c < 0x80) text \<longrightarrow> detect_encoding P text = ''ascii'') \<and>
   (detect_encoding P text = ''ascii'' \<longrightarrow> list_all (\<lambda>c. c < 0x80) text)"
proof -
  have a: "detect_encoding P text \<in> {''ascii'', ''shift-jis'', ''utf-8'', ''latin-1''}"
    by (simp add: detect_encoding_def Let_def split: sum.splits)
  have b: "list_all (\<lambda>c. c < 0x80) text \<Longrightarrow> detect_encoding P text = ''ascii''"
    by (simp add: detect_encoding_def ascii_encode_def encode_chars_ascii)
  have c: "detect_encoding P text = ''ascii'' \<Longrightarrow> list_all (\<lambda>c. c < 0x80) text"
    using encode_chars_ascii_iff [of "text"]
    by (auto simp: detect_encoding_def Let_def ascii_encode_def split: sum.splits if_splits)
  from a b c show ?thesis by blast
qed

theorem detect_encoding_tags_witness:
  "list_all (\<lambda>c. c < 0x80) (lit ''abc'') \<and>
   detect_encoding plain_platform (lit ''abc'') = ''ascii'' \<and>
   detect_encoding plain_platform (lit ''abc'') \<in> {''ascii'', ''shift-jis'', ''utf-8'', ''latin-1''}"
proof -
  have h: "list_all (\<lambda>c. c < 0x80) (lit ''abc'')" by (simp add: lit_def)
  show ?thesis using h detect_encoding_tags [of plain_platform "lit ''abc''"] by simp
qed

section \<open>Reconciling and packing\<close>

lemma scan_file_known: "fxc_file \<in> known \<Longrightarrow> scan_file P all_files known fxc_file st = st"
  by (cases st) (simp add: scan_file_def)

lemma fold_scan_file_known:
  "set files \<subseteq> known \<Longrightarrow> fold (scan_file P all_files known) files st = st"
  by (induction files arbitrary: st) (simp_all add: scan_file_known)

text \<open>
  Claim C7. For every persisted entry list and every listing of the blob files in which each
  file name is already referenced by some persisted entry, the reconcile step finds no new
  entry: the list handed to the packing loop is the persisted list itself, in its order and
  at its length, and \<open>metadata.json\<close> is not rewritten. This holds for every order in which
  the set of file names is iterated.
\<close>

theorem reconcile_nothing_new:
  assumes "set all_fxc_files \<subseteq> known_files shaders"
  shows "find_new_shaders P all_fxc_files shaders = [] \<and>
         shaders @ find_new_shaders P all_fxc_files shaders = shaders \<and>
         saved_metadata (pack P fs all_fxc_files (Some shaders)) = None \<and>
         returned (pack P fs all_fxc_files (Some shaders)) =
           (case pack_loop P fs shaders [] 0 of Inl e \<Rightarrow> Inl e | Inr r \<Rightarrow> Inr (Some r))"
proof -
  have "find_new_shaders P all_fxc_files shaders = []"
    using assms by (simp add: find_new_shaders_def fold_scan_file_known)
  then show ?thesis by (simp add: pack_def)
qed

theorem reconcile_nothing_new_witness:
  "set [lit ''B_vs.fxc'', lit ''B_ps.fxc''] \<subseteq> known_files [entry_A, entry_B] \<and>
   find_new_shaders plain_platform [lit ''B_vs.fxc'', lit ''B_ps.fxc''] [entry_A, entry_B] = [] \<and>
   saved_metadata (pack plain_platform demo_dir [lit ''B_vs.fxc'', lit ''B_ps.fxc'']
      (Some [entry_A, entry_B])) = None"
proof -
  have h: "set [lit ''B_vs.fxc'', lit ''B_ps.fxc''] \<subseteq> known_files [entry_A, entry_B]"
    by (simp add: known_files_def entry_A_def entry_B_def)
  show ?thesis
    using h reconcile_nothing_new [OF h, of plain_platform demo_dir] by simp
qed

lemma pack_loop_append:
  "pack_loop P fs (xs @ ys) out n =
     (case pack_loop P fs xs out n of Inl e \<Rightarrow> Inl e | Inr (out', n') \<Rightarrow> pack_loop P fs ys out' n')"
  by (induction xs arbitrary: out n) (auto split: option.splits sum.splits)

lemma missing_blob_skipped: "missing_blob fs si \<Longrightarrow> pack_entry P fs si = None"
  by (auto simp: missing_blob_def pack_entry_def split: option.splits)

lemma pack_loop_filter_missing:
  "pack_loop P fs shaders out n =
   pack_loop P fs (filter (\<lambda>si. \<not> missing_blob fs si) shaders) out n"
  by (induction shaders arbitrary: out n) (auto simp: missing_blob_skipped split: option.splits sum.splits)


lemma pack_loop_failure:
  "si \<in> set shaders \<Longrightarrow> encode_fails P fs si \<Longrightarrow> \<exists>e. pack_loop P fs shaders out n = Inl e"
  by (induction shaders arbitrary: out n)
     (auto simp: encode_fails_def split: option.splits sum.splits)

lemma encode_chars_utf8_ascii:
  "is_ascii s \<Longrightarrow> encode_chars utf8_encode_char s = Inr (map of_nat s)"
  unfolding is_ascii_def by (induction s) (auto simp: utf8_encode_char_def)

lemma encode_chars_latin1_ascii:
  "is_ascii s \<Longrightarrow> encode_chars latin1_encode_char s = Inr (map of_nat s)"
  unfolding is_ascii_def by (induction s) (auto simp: latin1_encode_char_def)

lemma encode_chars_sjis_ascii:
  "is_ascii s \<Longrightarrow> encode_chars (sjis_encode_char P) s = Inr (map of_nat s)"
  unfolding is_ascii_def by (induction s) (auto simp: sjis_encode_char_def)

lemma encode_chars_ascii_ascii:
  "is_ascii s \<Longrightarrow> encode_chars ascii_encode_char s = Inr (map of_nat s)"
  unfolding is_ascii_def by (induction s) (auto simp: ascii_encode_char_def)

lemma encode_name_ascii:
  assumes "is_ascii s" and "enc \<in> {''shift-jis'', ''utf-8'', ''latin-1'', ''ascii''}"
  shows "encode_name P enc s = Inr (map of_nat s)"
  using assms
  by (auto simp: encode_name_def str_encode_def sjis_encode_def utf8_encode_def
      latin1_encode_def ascii_encode_def encode_chars_sjis_ascii encode_chars_utf8_ascii
      encode_chars_latin1_ascii encode_chars_ascii_ascii)


lemma is_ascii_long_name: "is_ascii long_name"
  by (simp add: is_ascii_def long_name_def list_all_iff)

lemma ensure_long_name: "ensure_null_terminator long_name = long_name @ [0]"
proof -
  have "last long_name = 0x41" by (simp add: long_name_def)
  then have "\<not> endswith long_name [0]" by (simp add: endswith_null_iff)
  then show ?thesis by (simp add: ensure_null_terminator_def)
qed


lemma entry_A_skipped: "pack_entry plain_platform demo_dir entry_A = None"
  by (simp add: entry_A_def pack_entry_def demo_dir_def lit_def)



lemma too_long_entry:
  assumes "name si = Some nm" "vertex_shader_file si = Some v" "pixel_shader_file si = Some p"
    "fs v = Some (File vs)" "fs p = Some (File ps)"
    "encode_name P (entry_tag si)
       (ensure_null_terminator nm) = Inr name_bytes"
    "255 < length name_bytes"
  shows "pack_entry P fs si = Some (Inl ValueError)"
  using assms by (simp add: pack_entry_def encode_record_def)

text \<open>
  Claim C3. For every entry that is encoded (it has a name and both file fields, and both
  files exist) and whose name, terminated and encoded under its tag with the fallback chain,
  is longer than 255 bytes: encoding that entry raises \<open>ValueError\<close>, the packing loop and
  \<open>pack\<close> return an error and no output buffer, whatever the other entries are, and the error
  is this \<open>ValueError\<close> when the entries before it were packed without error.
\<close>

theorem name_too_long_aborts_pack:
  assumes "si \<in> set shaders"
    and "name si = Some nm"
    and "vertex_shader_file si = Some v" and "pixel_shader_file si = Some p"
    and "fs v = Some (File vs)" and "fs p = Some (File ps)"
    and "encode_name P (entry_tag si)
           (ensure_null_terminator nm) = Inr name_bytes"
    and "255 < length name_bytes"
  shows "pack_entry P fs si = Some (Inl ValueError) \<and>
         (\<exists>e. pack_loop P fs shaders out n = Inl e) \<and>
         (\<exists>e. returned (pack P fs all_fxc_files (Some shaders)) = Inl e) \<and>
         (\<forall>before after r. shaders = before @ si # after \<and> pack_loop P fs before out n = Inr r
            \<longrightarrow> pack_loop P fs shaders out n = Inl ValueError)"
proof -
  have a: "pack_entry P fs si = Some (Inl ValueError)"
    using assms(2-8) by (rule too_long_entry)
  then have f: "encode_fails P fs si" by (simp add: encode_fails_def)
  have b: "\<exists>e. pack_loop P fs shaders out n = Inl e"
    using assms(1) f by (rule pack_loop_failure)
  have "si \<in> set (shaders @ find_new_shaders P all_fxc_files shaders)"
    using assms(1) by simp
  then have "\<exists>e. pack_loop P fs (shaders @ find_new_shaders P all_fxc_files shaders) [] 0 = Inl e"
    using f by (rule pack_loop_failure)
  then have c: "\<exists>e. returned (pack P fs all_fxc_files (Some shaders)) = Inl e"
    by (auto simp: pack_def Let_def)
  have d: "pack_loop P fs (before @ si # after) out n = Inl ValueError"
    if "pack_loop P fs before out n = Inr r" for before after r
    using that a by (cases r) (simp add: pack_loop_append)
  from a b c d show ?thesis by blast
qed

theorem name_too_long_aborts_pack_witness:
  "255 < length (map of_nat (long_name @ [0]) :: bytes) \<and>
   pack_entry plain_platform demo_dir entry_long = Some (Inl ValueError) \<and>
   pack_loop plain_platform demo_dir [entry_A, entry_long] [] 0 = Inl ValueError \<and>
   (\<exists>e. returned (pack plain_platform demo_dir [] (Some [entry_A, entry_long])) = Inl e)"
proof -
  have h1: "entry_long \<in> set [entry_A, entry_long]" by simp
  have h2: "name entry_long = Some long_name" by (simp add: entry_long_def)
  have h3: "vertex_shader_file entry_long = Some (lit ''B_vs.fxc'')"
    by (simp add: entry_long_def)
  have h4: "pixel_shader_file entry_long = Some (lit ''B_ps.fxc'')"
    by (simp add: entry_long_def)
  have h5: "demo_dir (lit ''B_vs.fxc'') = Some (File [])" by (simp add: demo_dir_def lit_def)
  have h6: "demo_dir (lit ''B_ps.fxc'') = Some (File [1, 2, 3])"
    by (simp add: demo_dir_def lit_def)
  have h7: "encode_name plain_platform
      (entry_tag entry_long)
      (ensure_null_terminator long_name) = Inr (map of_nat (long_name @ [0]))"
    using is_ascii_long_name
    by (simp add: entry_long_def entry_tag_def ensure_long_name encode_name_ascii is_ascii_def
        del: map_append)
  have h8: "255 < length (map of_nat (long_name @ [0]) :: bytes)" by (simp add: long_name_def)
  have split: "[entry_A, entry_long] = [entry_A] @ entry_long # []" by simp
  have pre: "pack_loop plain_platform demo_dir [entry_A] [] 0 = Inr ([], 0)"
    by (simp add: entry_A_skipped)
  note t = name_too_long_aborts_pack [OF h1 h2 h3 h4 h5 h6 h7 h8, of "[]" 0 "[]"]
  from t have "pack_loop plain_platform demo_dir [entry_A, entry_long] [] 0 = Inl ValueError"
    using split pre by blast
  with t h8 show ?thesis by blast
qed

section \<open>Decoding a container\<close>

lemma unat_byte_lt: "unat (b :: byte) < 256"
  using unsigned_less [of b] by simp

lemma unat_of_nat_byte: "unat (of_nat m :: byte) = m mod 256"
  by (simp add: unat_of_nat)

lemma base256_mod: "x < 256 \<Longrightarrow> (x + 256 * y) mod 256 = (x :: nat)"
  by simp

lemma base256_div: "x < 256 \<Longrightarrow> (x + 256 * y) div 256 = (y :: nat)"
  by simp

lemma digits4:
  fixes x0 x1 x2 x3 :: nat
  assumes "x0 < 256" "x1 < 256" "x2 < 256" "x3 < 256"
  defines "n \<equiv> x0 + 256 * x1 + 65536 * x2 + 16777216 * x3"
  shows "n mod 256 = x0" "n div 256 mod 256 = x1" "n div 65536 mod 256 = x2"
    "n div 16777216 = x3" "n < 2 ^ 32"
proof -
  define a where "a = x1 + 256 * (x2 + 256 * x3)"
  define b where "b = x2 + 256 * x3"
  have n: "n = x0 + 256 * a" by (simp add: n_def a_def)
  have ab: "a = x1 + 256 * b" by (simp add: a_def b_def)
  show "n mod 256 = x0" unfolding n using assms(1) by (rule base256_mod)
  have a: "n div 256 = a" unfolding n using assms(1) by (rule base256_div)
  show "n div 256 mod 256 = x1" unfolding a ab using assms(2) by (rule base256_mod)
  have "n div 65536 = n div 256 div 256" by (simp add: div_mult2_eq)
  also have "\<dots> = b" unfolding a ab using assms(2) by (rule base256_div)
  finally have b: "n div 65536 = b" .
  show "n div 65536 mod 256 = x2" unfolding b b_def using assms(3) by (rule base256_mod)
  have "n div 16777216 = n div 65536 div 256" by (simp add: div_mult2_eq)
  also have "\<dots> = x3" unfolding b b_def using assms(3) by (rule base256_div)
  finally show "n div 16777216 = x3" .
  show "n < 2 ^ 32" using assms by (simp add: n_def)
qed

lemma split4:
  fixes n :: nat
  assumes "n < 2 ^ 32"
  shows "n mod 256 + 256 * (n div 256 mod 256) + 65536 * (n div 65536 mod 256)
        + 16777216 * (n div 16777216 mod 256) = n"
proof -
  define a where "a = n div 256"
  define b where "b = a div 256"
  define c where "c = b div 256"
  have 1: "n = n mod 256 + 256 * a" by (simp add: a_def)
  have 2: "a = a mod 256 + 256 * b" by (simp add: b_def)
  have 3: "b = b mod 256 + 256 * c" by (simp add: c_def)
  have b': "n div 65536 = b" by (simp add: a_def b_def div_mult2_eq)
  have c': "n div 16777216 = c" by (simp add: a_def b_def c_def div_mult2_eq)
  have "c < 256" using assms unfolding c'[symmetric] by (simp add: less_mult_imp_div_less)
  then have 4: "c mod 256 = c" by simp
  have "n mod 256 + 256 * (a mod 256) + 65536 * (b mod 256) + 16777216 * c = n"
    using 1 2 3 by linarith
  then show ?thesis by (simp add: a_def[symmetric] b' c' 4)
qed

lemma byte_eqI: "unat (a :: byte) = unat b \<Longrightarrow> a = b"
  by (simp add: word_unat_eq_iff)

lemma unpack_I_le32: "n < 2 ^ 32 \<Longrightarrow> unpack_I (le32 n) = Inr n"
  using split4 [of n] by (simp add: unpack_I_def le32_def unat_of_nat_byte)

lemma le32_unpack_I:
  assumes "unpack_I b = Inr n"
  shows "le32 n = b" and "n < 2 ^ 32" and "length b = 4"
proof -
  from assms obtain b0 b1 b2 b3 where b: "b = [b0, b1, b2, b3]"
    by (auto simp: unpack_I_def split: list.splits)
  from assms b have n: "n = unat b0 + 256 * unat b1 + 65536 * unat b2 + 16777216 * unat b3"
    by (simp add: unpack_I_def)
  note d = digits4 [OF unat_byte_lt unat_byte_lt unat_byte_lt unat_byte_lt,
      of b0 b1 b2 b3, folded n]
  have "of_nat n = b0" by (rule byte_eqI) (simp add: unat_of_nat_byte d)
  moreover have "of_nat (n div 256) = b1" by (rule byte_eqI) (simp add: unat_of_nat_byte d)
  moreover have "of_nat (n div 65536) = b2" by (rule byte_eqI) (simp add: unat_of_nat_byte d)
  moreover have "of_nat (n div 16777216) = b3"
    by (rule byte_eqI) (simp add: unat_of_nat_byte d unat_byte_lt)
  ultimately show "le32 n = b" by (simp add: le32_def b)
  show "n < 2 ^ 32" by (rule d)
  show "length b = 4" by (simp add: b)
qed

lemma length_le32: "length (le32 n) = 4"
  by (simp add: le32_def)

lemma slice_at:
  "data = a @ b @ c \<Longrightarrow> i = length a \<Longrightarrow> j = i + length b \<Longrightarrow> slice data i j = b"
  by (simp add: slice_def)

lemma length_slice: "length (slice xs a b) = min (b - a) (length xs - a)"
  by (simp add: slice_def)

lemma drop_slice: "a \<le> b \<Longrightarrow> drop a xs = slice xs a b @ drop b xs"
proof -
  assume "a \<le> b"
  then have "drop b xs = drop (b - a) (drop a xs)" by simp
  then show ?thesis unfolding slice_def by (metis append_take_drop_id)
qed

lemma length_record_bytes:
  "length (record_bytes r) =
     9 + length (raw_name r) + length (raw_vertex r) + length (raw_pixel r)"
  by (simp add: record_bytes_def le32_def)

lemma unpack_step_record:
  assumes v: "valid_raw r" and data: "data = pre @ record_bytes r @ post"
  shows "unpack_step P data (length pre) =
           Inr (decode_raw P r, length pre + length (record_bytes r))"
proof -
  define nb vb pb where "nb = raw_name r" and "vb = raw_vertex r" and "pb = raw_pixel r"
  define L :: byte where "L = of_nat (length nb)"
  from v have lens: "length nb < 256" "length vb < 2 ^ 32" "length pb < 2 ^ 32"
    by (simp_all add: valid_raw_def nb_def vb_def pb_def)
  have d: "data = pre @ [L] @ nb @ le32 (length vb) @ vb @ le32 (length pb) @ pb @ post"
    by (simp add: data record_bytes_def nb_def vb_def pb_def L_def)
  have f0: "unat (data ! length pre) = length nb"
    using lens(1) by (simp add: d L_def unat_of_nat_byte)
  have f1: "slice data (length pre + 1) (length pre + 1 + length nb) = nb"
    by (rule slice_at [where a = "pre @ [L]" and
          c = "le32 (length vb) @ vb @ le32 (length pb) @ pb @ post"]) (simp_all add: d)
  have "slice data (length pre + 1 + length nb) (length pre + 1 + length nb + 4)
      = le32 (length vb)"
    by (rule slice_at [where a = "pre @ [L] @ nb" and c = "vb @ le32 (length pb) @ pb @ post"])
      (simp_all add: d length_le32)
  then have f2: "unpack_I (slice data (length pre + 1 + length nb)
      (length pre + 1 + length nb + 4)) = Inr (length vb)"
    using lens(2) by (simp add: unpack_I_le32)
  have f3: "slice data (length pre + 1 + length nb + 4)
      (length pre + 1 + length nb + 4 + length vb) = vb"
    by (rule slice_at [where a = "pre @ [L] @ nb @ le32 (length vb)" and
          c = "le32 (length pb) @ pb @ post"]) (simp_all add: d length_le32)
  have "slice data (length pre + 1 + length nb + 4 + length vb)
      (length pre + 1 + length nb + 4 + length vb + 4) = le32 (length pb)"
    by (rule slice_at [where a = "pre @ [L] @ nb @ le32 (length vb) @ vb" and c = "pb @ post"])
      (simp_all add: d length_le32)
  then have f4: "unpack_I (slice data (length pre + 1 + length nb + 4 + length vb)
      (length pre + 1 + length nb + 4 + length vb + 4)) = Inr (length pb)"
    using lens(3) by (simp add: unpack_I_le32)
  have f5: "slice data (length pre + 1 + length nb + 4 + length vb + 4)
      (length pre + 1 + length nb + 4 + length vb + 4 + length pb) = pb"
    by (rule slice_at [where a = "pre @ [L] @ nb @ le32 (length vb) @ vb @ le32 (length pb)"
          and c = post]) (simp_all add: d length_le32)
  have len: "length pre + 1 + length nb + 4 + length vb + 4 + length pb
      = length pre + length (record_bytes r)"
    by (simp add: length_record_bytes nb_def vb_def pb_def)
  have "unpack_step P data (length pre) =
      Inr (decode_raw P (Raw nb vb pb),
           length pre + 1 + length nb + 4 + length vb + 4 + length pb)"
    by (simp only: unpack_step_def Let_def f0 f1 f2 f3 f4 f5 sum.case decode_raw_def raw.sel)
  moreover have "Raw nb vb pb = r" by (simp add: nb_def vb_def pb_def)
  ultimately show ?thesis by (simp only: len)
qed

lemma record_bytes_nonempty: "record_bytes r \<noteq> []"
  by (simp add: record_bytes_def)

lemma unpack_loop_records:
  "list_all valid_raw raws \<Longrightarrow>
   unpack_loop P (pre @ concat (map record_bytes raws)) (length pre) acc =
     Inr (acc @ map (decode_raw P) raws)"
proof (induction raws arbitrary: pre acc)
  case Nil
  then show ?case by (simp add: unpack_loop.simps)
next
  case (Cons r raws)
  let ?data = "pre @ concat (map record_bytes (r # raws))"
  have v: "valid_raw r" and vs: "list_all valid_raw raws" using Cons.prems by simp_all
  have data: "?data = pre @ record_bytes r @ concat (map record_bytes raws)" by simp
  have lt: "length pre < length ?data"
    using record_bytes_nonempty [of r] by (simp add: length_greater_0_conv)
  have step: "unpack_step P ?data (length pre) =
      Inr (decode_raw P r, length pre + length (record_bytes r))"
    using v data by (rule unpack_step_record)
  have "unpack_loop P ?data (length pre) acc =
      unpack_loop P ?data (length pre + length (record_bytes r)) (acc @ [decode_raw P r])"
    by (subst unpack_loop.simps) (simp only: lt step if_True sum.case prod.case)
  also have "\<dots> = unpack_loop P ((pre @ record_bytes r) @ concat (map record_bytes raws))
      (length (pre @ record_bytes r)) (acc @ [decode_raw P r])"
    by simp
  also have "\<dots> = Inr ((acc @ [decode_raw P r]) @ map (decode_raw P) raws)"
    using vs by (rule Cons.IH)
  finally show ?case by simp
qed

lemma unpack_step_error: "unpack_step P data offset = Inl e \<Longrightarrow> e = StructError"
  by (auto simp: unpack_step_def Let_def unpack_I_def split: sum.splits list.splits)

lemma unpack_loop_error: "unpack_loop P data offset acc = Inl e \<Longrightarrow> e = StructError"
proof (induction P data offset acc rule: unpack_loop.induct)
  case (1 P data offset shaders)
  show ?case
  proof (cases "unpack_step P data offset")
    case (Inl e')
    with "1.prems" show ?thesis
      by (subst (asm) unpack_loop.simps) (auto split: if_splits dest: unpack_step_error)
  next
    case (Inr p)
    obtain x off' where p: "p = (x, off')" by (cases p)
    show ?thesis
    proof (cases "offset < length data")
      case True
      with "1.prems" Inr p have "unpack_loop P data off' (shaders @ [x]) = Inl e"
        by (subst (asm) unpack_loop.simps) simp
      with "1.IH" [OF True Inr p [symmetric]] show ?thesis by simp
    next
      case False
      with "1.prems" show ?thesis by (subst (asm) unpack_loop.simps) simp
    qed
  qed
qed

lemma slice_full: "length xs \<le> b \<Longrightarrow> slice xs a b = drop a xs"
  by (simp add: slice_def)

lemma slice_length_4: "length (slice xs a (a + 4)) = 4 \<Longrightarrow> a + 4 \<le> length xs"
  by (simp add: length_slice min_def split: if_splits)

lemma unpack_step_layout:
  assumes lt: "offset < length data"
    and st: "unpack_step P data offset = Inr (x, off')"
  shows "\<exists>r pad. valid_raw r \<and> off' = offset + length (record_bytes r) \<and>
           drop offset data @ pad = record_bytes r @ drop off' data \<and>
           length pad = off' - length data \<and> length pad \<le> length (raw_pixel r)"
proof -
  define nl where "nl = unat (data ! offset)"
  define o2 where "o2 = offset + 1 + nl"
  from st obtain vs_size where
    vs: "unpack_I (slice data o2 (o2 + 4)) = Inr vs_size"
    unfolding unpack_step_def Let_def o2_def nl_def by (auto split: sum.splits)
  define o4 where "o4 = o2 + 4 + vs_size"
  from st vs obtain ps_size where
    ps: "unpack_I (slice data o4 (o4 + 4)) = Inr ps_size"
    unfolding unpack_step_def Let_def o2_def nl_def o4_def by (auto split: sum.splits)
  from st vs ps have off': "off' = o4 + 4 + ps_size"
    unfolding unpack_step_def Let_def o2_def nl_def o4_def by (auto split: sum.splits)
  note vsf = le32_unpack_I [OF vs] and psf = le32_unpack_I [OF ps]
  have b2: "o2 + 4 \<le> length data" using vsf(3) by (rule slice_length_4)
  have b4: "o4 + 4 \<le> length data" using psf(3) by (rule slice_length_4)
  define nb where "nb = slice data (offset + 1) o2"
  define vb where "vb = slice data (o2 + 4) o4"
  define stored where "stored = slice data (o4 + 4) off'"
  define pad :: bytes where "pad = replicate (off' - length data) 0"
  define r where "r = Raw nb vb (stored @ pad)"
  have ln: "length nb = nl" using b2 by (simp add: nb_def length_slice o2_def)
  have lv: "length vb = vs_size" using b4 by (simp add: vb_def length_slice o4_def)
  have lp: "length (stored @ pad) = ps_size"
    using b4 by (auto simp: stored_def pad_def length_slice off' min_def)
  have nl: "nl < 256" unfolding nl_def by (rule unat_byte_lt)
  have valid: "valid_raw r"
    using nl vsf(2) psf(2) by (simp add: valid_raw_def r_def ln lv lp del: length_append)
  have L: "(of_nat (length nb) :: byte) = data ! offset" by (simp add: ln nl_def)
  have rb: "record_bytes r =
      [data ! offset] @ nb @ slice data o2 (o2 + 4) @ vb @ slice data o4 (o4 + 4) @ stored @ pad"
    unfolding record_bytes_def r_def raw.sel L lv lp vsf(1) psf(1) by simp
  have len: "off' = offset + length (record_bytes r)"
    unfolding length_record_bytes r_def raw.sel ln lv lp
    by (simp add: off' o4_def o2_def)
  have d0: "drop offset data = [data ! offset] @ drop (offset + 1) data"
    using lt by (simp add: Cons_nth_drop_Suc)
  have d1: "drop (offset + 1) data = nb @ drop o2 data"
    unfolding nb_def by (rule drop_slice) (simp add: o2_def)
  have d2: "drop o2 data = slice data o2 (o2 + 4) @ drop (o2 + 4) data"
    by (rule drop_slice) simp
  have d3: "drop (o2 + 4) data = vb @ drop o4 data"
    unfolding vb_def by (rule drop_slice) (simp add: o4_def)
  have d4: "drop o4 data = slice data o4 (o4 + 4) @ drop (o4 + 4) data"
    by (rule drop_slice) simp
  have d5: "drop (o4 + 4) data @ pad = stored @ pad @ drop off' data"
  proof (cases "off' \<le> length data")
    case True
    then have "pad = []" by (simp add: pad_def)
    moreover have "drop (o4 + 4) data = stored @ drop off' data"
      unfolding stored_def by (rule drop_slice) (simp add: off')
    ultimately show ?thesis by simp
  next
    case False
    then have "drop off' data = []" by simp
    moreover have "stored = drop (o4 + 4) data"
      unfolding stored_def using False by (intro slice_full) simp
    ultimately show ?thesis by simp
  qed
  have "drop offset data @ pad =
      [data ! offset] @ nb @ slice data o2 (o2 + 4) @ vb @ slice data o4 (o4 + 4) @
      (drop (o4 + 4) data @ pad)"
    unfolding d0 d1 d2 d3 d4 by simp
  also have "\<dots> = record_bytes r @ drop off' data"
    unfolding d5 rb by simp
  finally have eq: "drop offset data @ pad = record_bytes r @ drop off' data" .
  have "length pad = off' - length data" by (simp add: pad_def)
  moreover have "length pad \<le> length (raw_pixel r)" by (simp add: r_def)
  ultimately show ?thesis using valid len eq by blast
qed

lemma last_pixel_length_Cons:
  "last_pixel_length (r # raws) =
     (if raws = [] then length (raw_pixel r) else last_pixel_length raws)"
  by (cases raws rule: rev_cases) (simp_all add: last_pixel_length_def)

lemma unpack_loop_layout:
  "offset \<le> length data \<Longrightarrow> unpack_loop P data offset acc = Inr xs \<Longrightarrow>
   \<exists>raws pad. list_all valid_raw raws \<and>
     drop offset data @ pad = concat (map record_bytes raws) \<and>
     length pad \<le> last_pixel_length raws"
proof (induction P data offset acc rule: unpack_loop.induct)
  case (1 P data offset shaders)
  show ?case
  proof (cases "offset < length data")
    case False
    with "1.prems"(1) have "drop offset data = []" by simp
    then have "list_all valid_raw [] \<and> drop offset data @ [] = concat (map record_bytes []) \<and>
        length ([] :: bytes) \<le> last_pixel_length []"
      by (simp add: last_pixel_length_def)
    then show ?thesis by blast
  next
    case True
    from "1.prems"(2) True obtain x off' where
      st: "unpack_step P data offset = Inr (x, off')" and
      rest: "unpack_loop P data off' (shaders @ [x]) = Inr xs"
      by (subst (asm) unpack_loop.simps) (auto split: sum.splits)
    from unpack_step_layout [OF True st] obtain r pad0 where
      v: "valid_raw r" and
      eq: "drop offset data @ pad0 = record_bytes r @ drop off' data" and
      lp: "length pad0 = off' - length data" and
      le: "length pad0 \<le> length (raw_pixel r)"
      by blast
    show ?thesis
    proof (cases "off' \<le> length data")
      case False
      then have "drop off' data = []" by simp
      with eq have "drop offset data @ pad0 = concat (map record_bytes [r])" by simp
      moreover have "list_all valid_raw [r]" using v by simp
      moreover have "length pad0 \<le> last_pixel_length [r]"
        using le by (simp add: last_pixel_length_def)
      ultimately show ?thesis by blast
    next
      case le': True
      then have p0: "pad0 = []" using lp by simp
      from "1.IH" [OF True st refl le' rest] obtain raws pad where
        vs: "list_all valid_raw raws" and
        eq': "drop off' data @ pad = concat (map record_bytes raws)" and
        lp': "length pad \<le> last_pixel_length raws"
        by blast
      have "drop offset data @ pad = concat (map record_bytes (r # raws))"
        using eq eq' p0 by simp
      moreover have "list_all valid_raw (r # raws)" using v vs by simp
      moreover have "length pad \<le> last_pixel_length (r # raws)"
      proof (cases "raws = []")
        case True
        with lp' show ?thesis by (simp add: last_pixel_length_def)
      next
        case False
        with lp' show ?thesis by (simp only: last_pixel_length_Cons if_False)
      qed
      ultimately show ?thesis by blast
    qed
  qed
qed

lemma unpack_cut_container: "unpack P data = Inr xs \<Longrightarrow> is_cut_container data"
  using unpack_loop_layout [of 0 data P "[]" xs]
  by (simp add: unpack_def is_cut_container_def)

lemma records_length:
  "raws \<noteq> [] \<Longrightarrow> 9 + last_pixel_length raws \<le> length (concat (map record_bytes raws))"
  by (cases raws rule: rev_cases)
     (simp_all add: last_pixel_length_def length_record_bytes)

lemma cut_container_length: "is_cut_container data \<Longrightarrow> data = [] \<or> 9 \<le> length data"
proof -
  assume "is_cut_container data"
  then obtain raws pad where
    eq: "data @ pad = concat (map record_bytes raws)" and
    lp: "length pad \<le> last_pixel_length raws"
    by (auto simp: is_cut_container_def)
  show ?thesis
  proof (cases "raws = []")
    case True
    with eq show ?thesis by simp
  next
    case False
    from records_length [OF False] eq have "9 + last_pixel_length raws \<le> length (data @ pad)"
      by simp
    with lp show ?thesis by simp
  qed
qed

lemma unpack_files_loop_decodes:
  "snd (unpack_files_loop P data offset shaders d) = Inr idx \<Longrightarrow>
   \<exists>xs. unpack_loop P data offset acc = Inr xs"
proof (induction P data offset shaders d arbitrary: acc rule: unpack_files_loop.induct)
  case (1 P data offset shaders d)
  show ?case
  proof (cases "offset < length data")
    case False
    then show ?thesis by (subst unpack_loop.simps) simp
  next
    case True
    from "1.prems" True obtain x off' d1 d2 where
      st: "unpack_step P data offset = Inr (x, off')" and
      w1: "write_file P d (vs_file_name x) (vs_data x) = Inr d1" and
      w2: "write_file P d1 (ps_file_name x) (ps_data x) = Inr d2" and
      rest: "snd (unpack_files_loop P data off' (shaders @ [info x]) d2) = Inr idx"
      by (subst (asm) unpack_files_loop.simps) (auto split: sum.splits)
    from "1.IH" [OF True st refl w1 w2 rest, of "acc @ [x]"]
    obtain xs where "unpack_loop P data off' (acc @ [x]) = Inr xs" by blast
    then have "unpack_loop P data offset acc = Inr xs"
      using True st by (subst unpack_loop.simps) simp
    then show ?thesis by blast
  qed
qed

lemma unpack_files_aborts:
  "\<not> is_cut_container data \<Longrightarrow> \<exists>e. snd (unpack_files P data d) = Inl e"
proof -
  assume n: "\<not> is_cut_container data"
  show ?thesis
  proof (cases "snd (unpack_files P data d)")
    case (Inl e)
    then show ?thesis by blast
  next
    case (Inr idx)
    then obtain xs where "unpack P data = Inr xs"
      using unpack_files_loop_decodes [of P data 0 "[]" d idx "[]"]
      by (auto simp: unpack_files_def unpack_def)
    then have "is_cut_container data" by (rule unpack_cut_container)
    with n show ?thesis by simp
  qed
qed

text \<open>
  Claim C2, amended. For every input buffer that is neither a concatenation of whole records
  nor such a concatenation whose last record has lost pixel bytes at its end, the container
  decode aborts with \<open>struct.error\<close> and does not complete normally; the loop with its file
  writes aborts as well, with that error or, before it, with the error of a file it could
  not write.
\<close>

theorem truncated_decode_aborts:
  "\<not> is_cut_container data \<Longrightarrow>
   unpack P data = Inl StructError \<and> (\<exists>e. snd (unpack_files P data d) = Inl e)"
proof -
  assume n: "\<not> is_cut_container data"
  have "unpack P data = Inl StructError"
  proof (cases "unpack P data")
    case (Inl e)
    then have "e = StructError" unfolding unpack_def by (rule unpack_loop_error)
    with Inl show ?thesis by simp
  next
    case (Inr xs)
    then have "is_cut_container data" by (rule unpack_cut_container)
    with n show ?thesis by simp
  qed
  with unpack_files_aborts [OF n] show ?thesis by blast
qed

theorem truncated_decode_aborts_witness:
  "\<not> is_cut_container [1, 0x41, 0, 0, 0, 0, 3, 0] \<and>
   unpack plain_platform [1, 0x41, 0, 0, 0, 0, 3, 0] = Inl StructError \<and>
   (\<exists>e. snd (unpack_files plain_platform [1, 0x41, 0, 0, 0, 0, 3, 0] Map.empty) = Inl e)"
proof -
  have h: "\<not> is_cut_container [1, 0x41, 0, 0, 0, 0, 3, 0]"
    using cut_container_length [of "[1, 0x41, 0, 0, 0, 0, 3, 0]"] by auto
  from h truncated_decode_aborts [OF h, of plain_platform Map.empty] show ?thesis by blast
qed

lemma unpack_cut_example:
  "unpack plain_platform cut_example =
     Inr [\<lparr>info = \<lparr>name = Some (lit ''A''), encoding = Some ''shift-jis'',
                   vertex_shader_file = Some (lit ''A_vs.fxc''),
                   pixel_shader_file = Some (lit ''A_ps.fxc'')\<rparr>,
           vs_data = [], ps_data = [0x51]\<rparr>]"
  by (simp add: unpack_def cut_example_def unpack_loop.simps unpack_step_def slice_def
      unpack_I_def decode_name_def cons_ok_def determine_encoding_def sjis_encode_def
      sjis_encode_char_def sanitize_filename_def remove_char_def strip_def isspace_def
      invalid_chars_def replace_char_def underscore_def lit_def xor_decrypt_def)

lemma not_container_cut_example: "\<not> is_container cut_example"
proof
  assume "is_container cut_example"
  then obtain raws where v: "list_all valid_raw raws"
    and c: "cut_example = concat (map record_bytes raws)"
    by (auto simp: is_container_def)
  have "unpack plain_platform cut_example = Inr (map (decode_raw plain_platform) raws)"
    using unpack_loop_records [OF v, of plain_platform "[]" "[]"] by (simp add: unpack_def c)
  then have m: "map (decode_raw plain_platform) raws =
      [\<lparr>info = \<lparr>name = Some (lit ''A''), encoding = Some ''shift-jis'',
                   vertex_shader_file = Some (lit ''A_vs.fxc''),
                   pixel_shader_file = Some (lit ''A_ps.fxc'')\<rparr>,
           vs_data = [], ps_data = [0x51]\<rparr>]"
    by (simp add: unpack_cut_example)
  then obtain r where r: "raws = [r]" by (cases raws) auto
  from m r have "xor_decrypt (raw_vertex r) = []" and "xor_decrypt (raw_pixel r) = [0x51]"
    by (simp_all add: decode_raw_def)
  then have "length (xor_decrypt (raw_vertex r)) = 0" and "length (xor_decrypt (raw_pixel r)) = 1"
    by simp_all
  then have lv: "raw_vertex r = []" and lp: "length (raw_pixel r) = 1"
    by (simp_all add: xor_decrypt_def)
  from c r have eq: "cut_example = record_bytes r" by simp
  have "length cut_example = 11" by (simp add: cut_example_def)
  then have "length (record_bytes r) = 11" by (simp only: eq)
  then have ln: "length (raw_name r) = 1" using lv lp by (simp add: length_record_bytes)
  from ln obtain n0 where n0: "raw_name r = [n0]" by (cases "raw_name r") auto
  from lp obtain p0 where p0: "raw_pixel r = [p0]" by (cases "raw_pixel r") auto
  have "record_bytes r ! 6 = 1" by (simp add: record_bytes_def le32_def n0 p0 lv)
  moreover have "cut_example ! 6 = 3" by (simp add: cut_example_def)
  ultimately show False using eq by simp
qed

text \<open>
  Claim C2, as stated, fails: the buffer is not a concatenation of whole records (its pixel
  size field reads 3 where one byte is left), yet the decode completes normally, with a
  pixel blob of one byte.
\<close>

theorem truncated_decode_counterexample:
  "\<not> is_container cut_example \<and>
   unpack_I (slice cut_example 6 10) = Inr 3 \<and> length cut_example = 11 \<and>
   unpack plain_platform cut_example =
     Inr [\<lparr>info = \<lparr>name = Some (lit ''A''), encoding = Some ''shift-jis'',
                   vertex_shader_file = Some (lit ''A_vs.fxc''),
                   pixel_shader_file = Some (lit ''A_ps.fxc'')\<rparr>,
           vs_data = [], ps_data = [0x51]\<rparr>]"
proof -
  have "unpack_I (slice cut_example 6 10) = Inr 3"
    by (simp add: cut_example_def slice_def unpack_I_def)
  moreover have "length cut_example = 11" by (simp add: cut_example_def)
  ultimately show ?thesis using not_container_cut_example unpack_cut_example by simp
qed

section \<open>Round trip\<close>











section \<open>Entries whose blob files are missing\<close>






lemma entry_B_present: "\<not> missing_blob demo_dir entry_B"
  by (simp add: missing_blob_def entry_B_def demo_dir_def lit_def)




section \<open>Round trip through the files\<close>










text \<open>
  The sanitized names have to differ: two entries of the same name are unpacked into the
  same two files, and the second pass replaces what the first has written.
\<close>

lemma same_name_overwrites:
  "pack_loop plain_platform two_shader_dir [entry_B, entry_B2] [] 0 =
     Inr ([2, 0x42, 0, 0, 0, 0, 0, 3, 0, 0, 0, 0x9D, 0x9E, 0x9F,
           2, 0x42, 0, 2, 0, 0, 0, 0x98, 0x99, 1, 0, 0, 0, 0x9A], 2) \<and>
   fst (unpack_files plain_platform
     [2, 0x42, 0, 0, 0, 0, 0, 3, 0, 0, 0, 0x9D, 0x9E, 0x9F,
      2, 0x42, 0, 2, 0, 0, 0, 0x98, 0x99, 1, 0, 0, 0, 0x9A] Map.empty) (lit ''B_ps.fxc'') =
     Some (File [6])"
  by (simp add: entry_B_def entry_B2_def pack_entry_def entry_tag_def two_shader_dir_def
      encode_record_def encode_name_def str_encode_def utf8_encode_def utf8_encode_char_def
      ensure_null_terminator_def endswith_def pack_I_def le32_def xor_encrypt_def
      unpack_files_def unpack_files_loop.simps unpack_step_def slice_def
      unpack_I_def decode_name_def cons_ok_def determine_encoding_def sjis_encode_def
      sjis_encode_char_def sanitize_filename_def remove_char_def strip_def isspace_def
      invalid_chars_def replace_char_def underscore_def lit_def xor_decrypt_def
      write_file_def vs_file_name_def ps_file_name_def plain_platform_def)

end
